theory Spec2Isabelle
  imports Main "HOL-Library.Char_ord" "HOL-Library.List_Lexorder"
begin

section \<open>Strings and paths\<close>

text \<open>
  Python strings are modelled as \<^typ>\<open>string\<close>. The script runs on a POSIX system,
  so \<open>os.sep\<close> is the slash. \<open>str.lower\<close> is modelled on the ASCII letters; every
  other character is left as it is.
\<close>

definition os_sep :: char where
  "os_sep = CHR ''/''"

definition lower_char :: "char \<Rightarrow> char" where
  "lower_char c =
     (let n = (of_char c :: nat) in if 65 \<le> n \<and> n \<le> 90 then char_of (n + 32) else c)"

definition lower :: "string \<Rightarrow> string" where
  "lower s = map lower_char s"

text \<open>\<open>s.split(c)\<close>: the pieces between the occurrences of \<open>c\<close>, empty pieces kept.\<close>

fun split :: "char \<Rightarrow> string \<Rightarrow> string list" where
  "split c [] = [[]]"
| "split c (x # xs) =
     (if x = c then [] # split c xs
      else (case split c xs of [] \<Rightarrow> [[x]] | y # ys \<Rightarrow> (x # y) # ys))"

text \<open>\<open>sep.join(xs)\<close>.\<close>

fun join :: "string \<Rightarrow> string list \<Rightarrow> string" where
  "join sep [] = []"
| "join sep [x] = x"
| "join sep (x # y # ys) = x @ sep @ join sep (y # ys)"

text \<open>\<open>s.startswith(c)\<close>, \<open>s.endswith(c)\<close>, \<open>s.lstrip(c)\<close> and \<open>s.rstrip(c)\<close> for a one-character argument.\<close>

definition startswith :: "string \<Rightarrow> char \<Rightarrow> bool" where
  "startswith s c = (case s of [] \<Rightarrow> False | x # _ \<Rightarrow> x = c)"

definition endswith :: "string \<Rightarrow> char \<Rightarrow> bool" where
  "endswith s c = (case rev s of [] \<Rightarrow> False | x # _ \<Rightarrow> x = c)"

definition lstrip :: "char \<Rightarrow> string \<Rightarrow> string" where
  "lstrip c s = dropWhile (\<lambda>x. x = c) s"

definition rstrip :: "char \<Rightarrow> string \<Rightarrow> string" where
  "rstrip c s = rev (dropWhile (\<lambda>x. x = c) (rev s))"

text \<open>
  \<open>p[:p.rfind(c) + 1]\<close> and \<open>p[p.rfind(c) + 1:]\<close>: the part of \<open>p\<close> up to and including
  the last \<open>c\<close> (empty when there is none), and the rest.
\<close>

definition upto_last :: "char \<Rightarrow> string \<Rightarrow> string" where
  "upto_last c p = rev (dropWhile (\<lambda>x. x \<noteq> c) (rev p))"

definition after_last :: "char \<Rightarrow> string \<Rightarrow> string" where
  "after_last c p = rev (takeWhile (\<lambda>x. x \<noteq> c) (rev p))"

text \<open>
  \<open>os.path.dirname\<close> of posixpath: the head up to the last slash, with its trailing
  slashes removed unless it consists of slashes only.
\<close>

definition os_path_dirname :: "string \<Rightarrow> string" where
  "os_path_dirname p =
     (let head = upto_last os_sep p
      in if head \<noteq> [] \<and> \<not> list_all (\<lambda>x. x = os_sep) head then rstrip os_sep head else head)"

definition os_path_basename :: "string \<Rightarrow> string" where
  "os_path_basename p = after_last os_sep p"

text \<open>
  \<open>os.path.splitext\<close> of posixpath: the extension starts at the last dot of the last
  path component, unless only dots (or nothing) come before it in that component.
\<close>

definition os_path_splitext :: "string \<Rightarrow> string \<times> string" where
  "os_path_splitext p =
     (let fname = after_last os_sep p
      in if CHR ''.'' \<in> set fname then
           (let pre = butlast (upto_last CHR ''.'' fname);
                suf = CHR ''.'' # after_last CHR ''.'' fname
            in if list_all (\<lambda>x. x = CHR ''.'') pre then (p, [])
               else (upto_last os_sep p @ pre, suf))
         else (p, []))"

text \<open>\<open>os.path.join\<close> of posixpath for two arguments.\<close>

definition os_path_join :: "string \<Rightarrow> string \<Rightarrow> string" where
  "os_path_join a b =
     (if startswith b os_sep then b
      else if a = [] \<or> endswith a os_sep then a @ b
      else a @ [os_sep] @ b)"

section \<open>The report script\<close>

text \<open>
  The file system is a parameter of the model. \<open>os_walk\<close> gives the list of
  \<open>(root, files)\<close> pairs that \<open>os.walk\<close> yields for a directory; \<open>os_path_relpath\<close> and
  \<open>os_path_abspath\<close> are the functions of these names; \<open>getmtime\<close> gives the
  modification time of a path, already formatted, or \<open>None\<close> when reading or
  formatting it raises.
\<close>

record filesystem =
  os_walk :: "string \<Rightarrow> (string \<times> string list) list"
  os_path_relpath :: "string \<Rightarrow> string \<Rightarrow> string"
  os_path_abspath :: "string \<Rightarrow> string"
  getmtime :: "string \<Rightarrow> string option"

subsection \<open>Output records\<close>

record output_rec =
  full :: string
  rel :: string
  basename :: string
  ext :: string
  kind :: string
  mtime :: string

text \<open>\<open>iso_mtime\<close>: any exception of the \<open>try\<close> block gives the empty string.\<close>

definition iso_mtime :: "filesystem \<Rightarrow> string \<Rightarrow> string" where
  "iso_mtime fs path = (case getmtime fs path of Some t \<Rightarrow> t | None \<Rightarrow> [])"

text \<open>The classification of \<open>scan_outputs\<close>, on the extension as \<open>splitext\<close> returns it.\<close>

definition classify :: "string \<Rightarrow> string" where
  "classify e =
     (if lower e = ''.csv'' then ''csv''
      else if lower e = ''.timeout'' then ''timeout''
      else if lower e = ''.error'' then ''error''
      else ''other'')"

text \<open>The body of the inner loop of \<open>scan_outputs\<close>: the record appended for file \<open>f\<close>.\<close>

definition output_record :: "filesystem \<Rightarrow> string \<Rightarrow> string \<Rightarrow> string \<Rightarrow> output_rec" where
  "output_record fs output_dir root f =
     (let fl = os_path_join root f;
          rl = os_path_relpath fs fl output_dir;
          (name, e) = os_path_splitext (os_path_basename f)
      in \<lparr>full = fl, rel = rl, basename = name, ext = lower e, kind = classify e,
          mtime = iso_mtime fs fl\<rparr>)"

fun scan_files ::
  "filesystem \<Rightarrow> string \<Rightarrow> string \<Rightarrow> string list \<Rightarrow> output_rec list \<Rightarrow> output_rec list" where
  "scan_files fs output_dir root [] outputs = outputs"
| "scan_files fs output_dir root (f # files) outputs =
     scan_files fs output_dir root files (outputs @ [output_record fs output_dir root f])"

fun scan_walk ::
  "filesystem \<Rightarrow> string \<Rightarrow> (string \<times> string list) list \<Rightarrow> output_rec list \<Rightarrow> output_rec list" where
  "scan_walk fs output_dir [] outputs = outputs"
| "scan_walk fs output_dir ((root, files) # w) outputs =
     scan_walk fs output_dir w (scan_files fs output_dir root files outputs)"

definition scan_outputs :: "filesystem \<Rightarrow> string \<Rightarrow> output_rec list" where
  "scan_outputs fs output_dir = scan_walk fs output_dir (os_walk fs output_dir) []"

subsection \<open>Matching\<close>

definition SKIP_LEADING :: "string list" where
  "SKIP_LEADING =
     [''ftp'', ''data'', ''source'', ''files'', ''input'', ''in'', ''out'', ''output'', ''tmp'']"

text \<open>The loop of \<open>strip_leading\<close>; at position \<open>i\<close> the argument is \<open>parts[i:]\<close>.\<close>

fun strip_scan :: "string list \<Rightarrow> string" where
  "strip_scan [] = []"
| "strip_scan (p # ps) =
     (if p \<noteq> [] \<and> lower p \<notin> set SKIP_LEADING then join [os_sep] (p # ps)
      else strip_scan ps)"

definition strip_leading :: "string \<Rightarrow> string" where
  "strip_leading path = strip_scan (filter (\<lambda>p. p \<noteq> []) (split os_sep path))"

fun match_loop :: "string \<Rightarrow> string \<Rightarrow> output_rec list \<Rightarrow> output_rec list \<Rightarrow> output_rec list" where
  "match_loop src_dir src_basename [] matches = matches"
| "match_loop src_dir src_basename (out # outputs) matches =
     (let out_dir = strip_leading (os_path_dirname (rel out))
      in if out_dir = src_dir \<and> basename out = src_basename
         then match_loop src_dir src_basename outputs (matches @ [out])
         else match_loop src_dir src_basename outputs matches)"

definition find_matches_for_source :: "string \<Rightarrow> string \<Rightarrow> output_rec list \<Rightarrow> output_rec list" where
  "find_matches_for_source src_rel src_basename outputs =
     match_loop (strip_leading (os_path_dirname src_rel)) src_basename outputs []"

subsection \<open>Status\<close>

definition determine_status :: "string list \<Rightarrow> string" where
  "determine_status match_kinds =
     (let kinds = set match_kinds
      in if ''csv'' \<in> kinds then ''ELABORATED''
         else if ''timeout'' \<in> kinds then ''TIMEOUT''
         else if ''error'' \<in> kinds then ''ERROR''
         else ''NOT_ELABORATED'')"

subsection \<open>Report rows\<close>

record report_row =
  source_path :: string
  relative_path :: string
  row_basename :: string
  category :: string
  book_container :: string
  status :: string
  has_output :: bool
  num_outputs :: nat
  matched_outputs :: string
  row_notes :: string

text \<open>The loop over the matches that fills \<open>match_descs\<close> and \<open>kinds\<close>.\<close>

definition match_desc :: "output_rec \<Rightarrow> string" where
  "match_desc m = rel m @ '' ('' @ kind m @ '', '' @ mtime m @ '')''"

fun describe_matches ::
  "output_rec list \<Rightarrow> string list \<Rightarrow> string list \<Rightarrow> string list \<times> string list" where
  "describe_matches [] match_descs kinds = (match_descs, kinds)"
| "describe_matches (m # ms) match_descs kinds =
     describe_matches ms (match_descs @ [match_desc m]) (kinds @ [kind m])"

definition skip :: "string list" where
  "skip =
     [''ftp'', ''data'', ''source'', ''files'', ''input'', ''in'', ''out'', ''output'', ''tmp'']"

text \<open>
  The loop that looks for the category: \<open>idx\<close> starts at 0 and is set to the position of
  the first non-empty segment that is no wrapper; the first argument is the position of
  the head of the list.
\<close>

fun category_idx :: "nat \<Rightarrow> string list \<Rightarrow> nat" where
  "category_idx i [] = 0"
| "category_idx i (p # ps) =
     (if p \<noteq> [] \<and> lower p \<notin> set skip then i else category_idx (Suc i) ps)"

definition category_of :: "string \<Rightarrow> string" where
  "category_of rl =
     (let parts = split os_sep rl; idx = category_idx 0 parts
      in if length parts > idx then parts ! idx else [])"

definition book_container_of :: "string \<Rightarrow> string" where
  "book_container_of rl =
     (let parts = split os_sep rl; idx = category_idx 0 parts
      in if length parts > idx + 1 then parts ! (idx + 1) else [])"

text \<open>The row appended for a source file \<open>f\<close> of directory \<open>root\<close> that passes the filter.\<close>

definition source_row ::
  "filesystem \<Rightarrow> output_rec list \<Rightarrow> string \<Rightarrow> string \<Rightarrow> string \<Rightarrow> report_row" where
  "source_row fs outputs data_dir root f =
     (let fl = os_path_join root f;
          rl = os_path_relpath fs fl data_dir;
          bn = fst (os_path_splitext (os_path_basename f));
          matches = find_matches_for_source rl bn outputs;
          (match_descs, kinds) = describe_matches matches [] [];
          st = determine_status kinds;
          n = length matches
      in \<lparr>source_path = os_path_abspath fs fl, relative_path = rl, row_basename = bn,
          category = category_of rl, book_container = book_container_of rl,
          status = st, has_output = (n > 0), num_outputs = n,
          matched_outputs = join ''; '' match_descs, row_notes = []\<rparr>)"

text \<open>
  The two loops of \<open>generate_report\<close>; the state is the list \<open>rows\<close> and the counter
  \<open>total_sources\<close>.
\<close>

fun report_files ::
  "filesystem \<Rightarrow> output_rec list \<Rightarrow> string \<Rightarrow> string list \<Rightarrow> bool \<Rightarrow> string \<Rightarrow> string list
     \<Rightarrow> report_row list \<times> nat \<Rightarrow> report_row list \<times> nat" where
  "report_files fs outputs data_dir exts include_all root [] st = st"
| "report_files fs outputs data_dir exts include_all root (f # files) (rows, total_sources) =
     (let e = snd (os_path_splitext f)
      in if \<not> include_all \<and> lower e \<notin> set exts
         then report_files fs outputs data_dir exts include_all root files (rows, total_sources)
         else report_files fs outputs data_dir exts include_all root files
                (rows @ [source_row fs outputs data_dir root f], total_sources + 1))"

fun report_walk ::
  "filesystem \<Rightarrow> output_rec list \<Rightarrow> string \<Rightarrow> string list \<Rightarrow> bool \<Rightarrow> (string \<times> string list) list
     \<Rightarrow> report_row list \<times> nat \<Rightarrow> report_row list \<times> nat" where
  "report_walk fs outputs data_dir exts include_all [] st = st"
| "report_walk fs outputs data_dir exts include_all ((root, files) # w) st =
     report_walk fs outputs data_dir exts include_all w
       (report_files fs outputs data_dir exts include_all root files st)"

text \<open>
  \<open>generate_report\<close>, up to the rows handed to the CSV writer and the count that the
  summary prints.
\<close>

definition generate_report ::
  "filesystem \<Rightarrow> string \<Rightarrow> string \<Rightarrow> string list \<Rightarrow> bool \<Rightarrow> bool \<Rightarrow> report_row list \<times> nat" where
  "generate_report fs data_dir output_dir exts include_all sort_rows =
     (let outputs = scan_outputs fs output_dir;
          (rows, total_sources) =
            report_walk fs outputs data_dir exts include_all (os_walk fs data_dir) ([], 0)
      in (if sort_rows then sort_key relative_path rows else rows, total_sources))"

text \<open>The extension list that \<open>main\<close> builds from the \<open>--exts\<close> argument.\<close>

definition parse_exts :: "string \<Rightarrow> string list" where
  "parse_exts s =
     map (\<lambda>e. if startswith e CHR ''.'' then lower e else CHR ''.'' # lower e)
       (filter (\<lambda>e. e \<noteq> []) (split CHR '','' s))"

subsection \<open>A small file system\<close>

text \<open>
  A source tree \<open>in\<close> and an output tree \<open>out\<close> on which the functions are run: one
  source has a result and an error marker, one only a log file, one nothing; only one
  output file has a readable modification time.
\<close>

definition fs_example :: filesystem where
  "fs_example =
     \<lparr>os_walk = (\<lambda>d.
        if d = ''out'' then
          [(''out'', [''README'']),
           (''out/output/CategoryX/Book1'', [''img001.CSV'', ''img001.error'', ''img002.log''])]
        else if d = ''in'' then
          [(''in'', [''top.png'']),
           (''in/ftp/CategoryX/Book1'', [''img001.png'', ''img002.PNG'', ''img003.png'', ''notes.txt''])]
        else []),
      os_path_relpath = (\<lambda>p start. drop (length start + 1) p),
      os_path_abspath = (\<lambda>p. ''/srv/'' @ p),
      getmtime = (\<lambda>p. if p = ''out/README'' then Some ''2024-01-01 00:00:00'' else None)\<rparr>"

section \<open>Vocabulary of the properties\<close>

abbreviation is_wrapper :: "string \<Rightarrow> bool" where
  "is_wrapper p \<equiv> lower p \<in> set SKIP_LEADING"

abbreviation segments :: "string \<Rightarrow> string list" where
  "segments path \<equiv> filter (\<lambda>p. p \<noteq> []) (split os_sep path)"

abbreviation is_segment :: "string \<Rightarrow> bool" where
  "is_segment x \<equiv> x \<noteq> [] \<and> os_sep \<notin> set x"

abbreviation kind_of_ext :: "string \<Rightarrow> string" where
  "kind_of_ext e \<equiv>
     (if e = ''.csv'' then ''csv'' else if e = ''.timeout'' then ''timeout''
      else if e = ''.error'' then ''error'' else ''other'')"

abbreviation file_ext :: "string \<Rightarrow> string" where
  "file_ext f \<equiv> lower (snd (os_path_splitext (os_path_basename f)))"

abbreviation row_matches :: "filesystem \<Rightarrow> output_rec list \<Rightarrow> string \<Rightarrow> string \<Rightarrow> string \<Rightarrow> output_rec list" where
  "row_matches fs outputs data_dir root f \<equiv>
     find_matches_for_source (os_path_relpath fs (os_path_join root f) data_dir)
       (fst (os_path_splitext (os_path_basename f))) outputs"

abbreviation passes :: "string list \<Rightarrow> bool \<Rightarrow> string \<Rightarrow> bool" where
  "passes exts include_all f \<equiv> include_all \<or> lower (snd (os_path_splitext f)) \<in> set exts"

section \<open>Splitting and joining\<close>

lemma split_not_Nil: "split c s \<noteq> []"
  by (induction s) (auto split: list.splits)

lemma split_sep_free: "x \<in> set (split c s) \<Longrightarrow> c \<notin> set x"
proof (induction s arbitrary: x)
  case Nil
  then show ?case by simp
next
  case (Cons a s)
  then show ?case
    by (cases "split c s") (auto split: if_splits)
qed

lemma join_split: "join [c] (split c s) = s"
proof (induction s)
  case Nil
  show ?case by simp
next
  case (Cons a s)
  show ?case
  proof (cases "split c s")
    case Nil
    then show ?thesis using split_not_Nil by blast
  next
    case (Cons y ys)
    with Cons.IH show ?thesis
      by (cases ys) auto
  qed
qed

lemma split_sep_free_id: "c \<notin> set x \<Longrightarrow> split c x = [x]"
  by (induction x) auto

lemma split_append_sep: "c \<notin> set x \<Longrightarrow> split c (x @ c # s) = x # split c s"
  by (induction x) auto

lemma split_join: "xs \<noteq> [] \<Longrightarrow> list_all (\<lambda>x. c \<notin> set x) xs \<Longrightarrow> split c (join [c] xs) = xs"
proof (induction "[c]" xs rule: join.induct)
  case 1
  then show ?case by simp
next
  case (2 x)
  then show ?case by (simp add: split_sep_free_id)
next
  case (3 x y ys)
  then show ?case by (simp add: split_append_sep)
qed

lemma segments_join:
  assumes "list_all is_segment xs"
  shows "segments (join [os_sep] xs) = xs"
proof (cases xs)
  case Nil
  then show ?thesis by simp
next
  case (Cons a list)
  from assms have "list_all (\<lambda>x. os_sep \<notin> set x) xs" by (simp add: list_all_iff)
  with Cons have "split os_sep (join [os_sep] xs) = xs" by (simp add: split_join)
  moreover from assms have "filter (\<lambda>p. p \<noteq> []) xs = xs" by (simp add: list_all_iff)
  ultimately show ?thesis by simp
qed

lemma segments_ok: "list_all is_segment (segments p)"
  by (auto simp: list_all_iff dest: split_sep_free)

lemma strip_scan_dropWhile:
  "strip_scan ps = join [os_sep] (dropWhile (\<lambda>p. p = [] \<or> is_wrapper p) ps)"
  by (induction ps) auto

lemma strip_leading_dropWhile:
  "strip_leading path = join [os_sep] (dropWhile is_wrapper (segments path))"
proof -
  have "dropWhile (\<lambda>p. p = [] \<or> is_wrapper p) (segments path) = dropWhile is_wrapper (segments path)"
    by (rule dropWhile_cong) auto
  then show ?thesis
    by (simp add: strip_leading_def strip_scan_dropWhile)
qed

lemma list_all_dropWhile: "list_all Q xs \<Longrightarrow> list_all Q (dropWhile P xs)"
  by (induction xs) auto

lemma join_Nil_iff:
  "list_all (\<lambda>x. x \<noteq> []) xs \<Longrightarrow> join sep xs = [] \<longleftrightarrow> xs = []"
  by (induction sep xs rule: join.induct) auto

lemma dropWhile_Nil_iff: "dropWhile P xs = [] \<longleftrightarrow> list_all P xs"
  by (induction xs) auto

lemma strip_leading_empty_iff:
  "strip_leading path = [] \<longleftrightarrow> list_all is_wrapper (segments path)"
proof -
  have "list_all (\<lambda>x. x \<noteq> []) (dropWhile is_wrapper (segments path))"
    by (rule list_all_dropWhile) (simp add: list_all_iff)
  then have "strip_leading path = [] \<longleftrightarrow> dropWhile is_wrapper (segments path) = []"
    by (simp only: strip_leading_dropWhile join_Nil_iff)
  also have "\<dots> \<longleftrightarrow> list_all is_wrapper (segments path)"
    by (rule dropWhile_Nil_iff)
  finally show ?thesis .
qed

section \<open>Status resolution\<close>

text \<open>
  C2: \<open>determine_status\<close> is defined on every list of kinds, its result depends only on
  the set of the kinds present, and it follows the precedence csv, then timeout, then
  error, then \<open>NOT_ELABORATED\<close>; \<open>{error, timeout}\<close> gives \<open>TIMEOUT\<close>,
  \<open>{csv, error, timeout}\<close> gives \<open>ELABORATED\<close>, \<open>{other}\<close> and the empty set give
  \<open>NOT_ELABORATED\<close>.
\<close>

theorem determine_status_precedence:
  "determine_status ks =
     (if ''csv'' \<in> set ks then ''ELABORATED''
      else if ''timeout'' \<in> set ks then ''TIMEOUT''
      else if ''error'' \<in> set ks then ''ERROR''
      else ''NOT_ELABORATED'')
   \<and> (set ks = set ks' \<longrightarrow> determine_status ks = determine_status ks')
   \<and> determine_status ks \<in> {''ELABORATED'', ''TIMEOUT'', ''ERROR'', ''NOT_ELABORATED''}
   \<and> determine_status [''error'', ''timeout''] = ''TIMEOUT''
   \<and> determine_status [''csv'', ''error'', ''timeout''] = ''ELABORATED''
   \<and> determine_status [''other''] = ''NOT_ELABORATED''
   \<and> determine_status [] = ''NOT_ELABORATED''"
  by (simp add: determine_status_def)

theorem determine_status_precedence_witness:
  "set [''timeout'', ''error'', ''error'', ''other''] = set [''other'', ''error'', ''timeout'']
   \<and> determine_status [''timeout'', ''error'', ''error'', ''other''] = ''TIMEOUT''
   \<and> determine_status [''other'', ''error'', ''timeout''] = ''TIMEOUT''"
proof -
  have s: "set [''timeout'', ''error'', ''error'', ''other''] = set [''other'', ''error'', ''timeout'']"
    by auto
  have "determine_status [''timeout'', ''error'', ''error'', ''other''] = ''TIMEOUT''"
    using determine_status_precedence [of "[''timeout'', ''error'', ''error'', ''other'']" "[]"]
    by simp
  moreover have "determine_status [''timeout'', ''error'', ''error'', ''other'']
      = determine_status [''other'', ''error'', ''timeout'']"
    using s determine_status_precedence
      [of "[''timeout'', ''error'', ''error'', ''other'']" "[''other'', ''error'', ''timeout'']"]
    by blast
  ultimately show ?thesis using s by simp
qed

section \<open>Path normalization\<close>

text \<open>
  C3: \<open>strip_leading\<close> splits the path into its non-empty segments and returns, joined
  again, the suffix that starts at the first segment whose lowercase form is no wrapper
  word; the result is empty for the empty path and exactly when every segment is a
  wrapper, so a path that normalizes to the empty string is only equal, after
  normalization, to paths made of wrappers alone.
\<close>

theorem strip_leading_suffix:
  "strip_leading path =
     join [os_sep] (dropWhile (\<lambda>p. lower p \<in> set SKIP_LEADING)
       (filter (\<lambda>p. p \<noteq> []) (split os_sep path)))
   \<and> strip_leading [] = []
   \<and> (strip_leading path = [] \<longleftrightarrow>
        list_all (\<lambda>p. lower p \<in> set SKIP_LEADING) (filter (\<lambda>p. p \<noteq> []) (split os_sep path)))
   \<and> (strip_leading path = [] \<and> strip_leading q = strip_leading path \<longrightarrow>
        list_all (\<lambda>p. lower p \<in> set SKIP_LEADING) (filter (\<lambda>p. p \<noteq> []) (split os_sep q)))"
proof -
  have "strip_leading [] = []" by (simp add: strip_leading_def)
  moreover note strip_leading_dropWhile [of path]
  moreover note strip_leading_empty_iff [of path]
  moreover have "strip_leading path = [] \<and> strip_leading q = strip_leading path \<longrightarrow>
        list_all is_wrapper (segments q)"
    using strip_leading_empty_iff [of q] by metis
  ultimately show ?thesis by blast
qed

theorem strip_leading_suffix_witness:
  "strip_leading ''ftp/data'' = [] \<and> strip_leading ''tmp//in'' = strip_leading ''ftp/data''
   \<and> list_all (\<lambda>p. lower p \<in> set SKIP_LEADING) (filter (\<lambda>p. p \<noteq> []) (split os_sep ''tmp//in''))"
proof -
  have h: "strip_leading ''ftp/data'' = [] \<and> strip_leading ''tmp//in'' = strip_leading ''ftp/data''"
    by code_simp
  with strip_leading_suffix [of "''ftp/data''" "''tmp//in''"] show ?thesis by blast
qed

text \<open>C6: normalization is idempotent.\<close>

theorem strip_leading_idem: "strip_leading (strip_leading p) = strip_leading p"
proof -
  let ?ys = "dropWhile is_wrapper (segments p)"
  have "list_all is_segment ?ys"
    by (rule list_all_dropWhile) (rule segments_ok)
  then have "segments (join [os_sep] ?ys) = ?ys" by (rule segments_join)
  then show ?thesis
    by (simp add: strip_leading_dropWhile)
qed

theorem strip_leading_idem_witness:
  "strip_leading (strip_leading ''Ftp/OUT/A/data/B'') = strip_leading ''Ftp/OUT/A/data/B''"
  using strip_leading_idem [of "''Ftp/OUT/A/data/B''"] .

section \<open>Wrapper segments, directories and the matcher\<close>

lemma lower_char_sep: "lower_char os_sep = os_sep"
  by code_simp

lemma lower_keeps_sep: "os_sep \<in> set w \<Longrightarrow> os_sep \<in> set (lower w)"
proof -
  assume "os_sep \<in> set w"
  then have "lower_char os_sep \<in> lower_char ` set w" by (rule imageI)
  then show ?thesis by (simp add: lower_def lower_char_sep)
qed

lemma wrapper_words_sep_free: "v \<in> set SKIP_LEADING \<Longrightarrow> v \<noteq> [] \<and> os_sep \<notin> set v"
  by (auto simp: SKIP_LEADING_def os_sep_def)

lemma wrapper_is_segment: "is_wrapper w \<Longrightarrow> is_segment w"
proof
  assume w: "is_wrapper w"
  then have "lower w \<noteq> []" using wrapper_words_sep_free by blast
  then show "w \<noteq> []" by (auto simp: lower_def)
  from w have "os_sep \<notin> set (lower w)" using wrapper_words_sep_free by blast
  then show "os_sep \<notin> set w" using lower_keeps_sep by blast
qed

lemma match_loop_filter:
  "match_loop d b outputs matches =
     matches @ filter (\<lambda>out. strip_leading (os_path_dirname (rel out)) = d \<and> basename out = b) outputs"
  by (induction outputs arbitrary: matches) (simp_all add: Let_def)

lemma upto_last_append: "c \<notin> set f \<Longrightarrow> upto_last c (x @ c # f) = x @ [c]"
proof -
  assume "c \<notin> set f"
  then have "dropWhile (\<lambda>x. x \<noteq> c) (rev f @ c # rev x) = c # rev x"
    by (auto simp: dropWhile_append3)
  then show ?thesis by (simp add: upto_last_def)
qed

lemma upto_last_none: "c \<notin> set f \<Longrightarrow> upto_last c f = []"
  by (auto simp: upto_last_def)

lemma join_snoc: "xs \<noteq> [] \<Longrightarrow> join sep (xs @ [f]) = join sep xs @ sep @ f"
  by (induction sep xs rule: join.induct) auto

lemma join_last:
  "xs \<noteq> [] \<Longrightarrow> last xs \<noteq> [] \<Longrightarrow> join sep xs \<noteq> [] \<and> last (join sep xs) = last (last xs)"
  by (induction sep xs rule: join.induct) auto

lemma rstrip_snoc: "x \<noteq> [] \<Longrightarrow> last x \<noteq> c \<Longrightarrow> rstrip c (x @ [c]) = x"
proof -
  assume "x \<noteq> []" and "last x \<noteq> c"
  then have "dropWhile (\<lambda>y. y = c) (rev x) = rev x"
    by (cases "rev x") (auto simp: last_rev hd_rev[symmetric])
  then show ?thesis by (simp add: rstrip_def)
qed

lemma dirname_append:
  assumes "x \<noteq> []" "last x \<noteq> os_sep" "os_sep \<notin> set f"
  shows "os_path_dirname (x @ os_sep # f) = x"
proof -
  have h: "upto_last os_sep (x @ os_sep # f) = x @ [os_sep]"
    using assms(3) by (rule upto_last_append)
  have "last x \<in> set x" using assms(1) by simp
  with assms(2) have "\<not> list_all (\<lambda>y. y = os_sep) (x @ [os_sep])"
    by (auto simp: list_all_iff)
  with h show ?thesis
    using assms(1,2) by (simp add: os_path_dirname_def rstrip_snoc)
qed

lemma dirname_join_snoc:
  assumes "list_all is_segment xs" "os_sep \<notin> set f"
  shows "os_path_dirname (join [os_sep] (xs @ [f])) = join [os_sep] xs"
proof (cases "xs = []")
  case True
  then show ?thesis using assms(2) by (simp add: os_path_dirname_def upto_last_none)
next
  case False
  from assms(1) False have l: "last xs \<noteq> [] \<and> os_sep \<notin> set (last xs)"
    by (simp add: list_all_iff)
  with False have j: "join [os_sep] xs \<noteq> [] \<and> last (join [os_sep] xs) = last (last xs)"
    by (simp add: join_last)
  with l have "last (join [os_sep] xs) \<noteq> os_sep"
    by (metis last_in_set)
  with j assms(2) have "os_path_dirname (join [os_sep] xs @ os_sep # f) = join [os_sep] xs"
    by (simp add: dirname_append)
  with False show ?thesis by (simp add: join_snoc)
qed

lemma strip_leading_join:
  assumes "list_all is_wrapper ws" "list_all is_segment xs"
    and "xs = [] \<or> \<not> is_wrapper (hd xs)"
  shows "strip_leading (join [os_sep] (ws @ xs)) = join [os_sep] xs"
proof -
  from assms(1) have "list_all is_segment ws"
    using wrapper_is_segment by (simp add: list_all_iff)
  with assms(2) have "segments (join [os_sep] (ws @ xs)) = ws @ xs"
    by (intro segments_join) simp
  moreover from assms(1) have "dropWhile is_wrapper (ws @ xs) = dropWhile is_wrapper xs"
    by (intro dropWhile_append2) (simp add: list_all_iff)
  moreover from assms(3) have "dropWhile is_wrapper xs = xs"
    by (cases xs) auto
  ultimately show ?thesis by (simp add: strip_leading_dropWhile)
qed

lemma strip_leading_wrapper_prefix:
  assumes "is_wrapper w"
  shows "strip_leading (w @ os_sep # path) = strip_leading path"
proof -
  from assms have "is_segment w" by (rule wrapper_is_segment)
  then have "segments (w @ os_sep # path) = w # segments path"
    by (simp add: split_append_sep)
  with assms show ?thesis by (simp add: strip_leading_def)
qed

text \<open>
  C1: \<open>find_matches_for_source\<close> returns exactly the output records, all of them and in
  their order, whose normalized directory equals the normalized directory of the source
  path and whose basename is the source basename (equality of strings, so case-sensitive).
  In particular a source \<open>ftp/A/B/file.png\<close> and an output \<open>data/A/B/file.csv\<close> match under
  any wrapper prefixes on either side.
\<close>

theorem find_matches_exact:
  "find_matches_for_source src_rel src_basename outputs =
     filter (\<lambda>out. strip_leading (os_path_dirname (rel out)) = strip_leading (os_path_dirname src_rel)
                  \<and> basename out = src_basename) outputs
   \<and> (list_all is_wrapper ws \<and> list_all is_wrapper ws' \<and> out \<in> set outputs
        \<and> rel out = join [os_sep] (ws' @ [''A'', ''B'', ''file.csv'']) \<and> basename out = ''file''
      \<longrightarrow> out \<in> set (find_matches_for_source
                (join [os_sep] (ws @ [''A'', ''B'', ''file.png''])) ''file'' outputs))"
proof (intro conjI impI)
  show eq: "find_matches_for_source src_rel src_basename outputs =
     filter (\<lambda>out. strip_leading (os_path_dirname (rel out)) = strip_leading (os_path_dirname src_rel)
                  \<and> basename out = src_basename) outputs"
    for src_rel src_basename
    by (simp add: find_matches_for_source_def match_loop_filter)
  have ab: "list_all is_segment [''A'', ''B'']" "\<not> is_wrapper (hd [''A'', ''B''])"
    by code_simp+
  have dir: "strip_leading (os_path_dirname (join [os_sep] (vs @ [''A'', ''B'', f]))) = ''A/B''"
    if "list_all is_wrapper vs" "os_sep \<notin> set f" for vs f
  proof -
    from that(1) have "list_all is_segment (vs @ [''A'', ''B''])"
      using wrapper_is_segment ab(1) by (simp add: list_all_iff)
    then have "os_path_dirname (join [os_sep] ((vs @ [''A'', ''B'']) @ [f]))
        = join [os_sep] (vs @ [''A'', ''B''])"
      using that(2) by (rule dirname_join_snoc)
    moreover have "strip_leading (join [os_sep] (vs @ [''A'', ''B''])) = join [os_sep] [''A'', ''B'']"
      using that(1) ab by (intro strip_leading_join) simp_all
    ultimately show ?thesis by (simp add: os_sep_def)
  qed
  assume a: "list_all is_wrapper ws \<and> list_all is_wrapper ws' \<and> out \<in> set outputs
        \<and> rel out = join [os_sep] (ws' @ [''A'', ''B'', ''file.csv'']) \<and> basename out = ''file''"
  have "strip_leading (os_path_dirname (rel out)) = ''A/B''"
    using a dir [of ws' "''file.csv''"] by (simp add: os_sep_def)
  moreover have "strip_leading (os_path_dirname (join [os_sep] (ws @ [''A'', ''B'', ''file.png'']))) = ''A/B''"
    using a dir [of ws "''file.png''"] by (simp add: os_sep_def)
  ultimately show "out \<in> set (find_matches_for_source
                (join [os_sep] (ws @ [''A'', ''B'', ''file.png''])) ''file'' outputs)"
    using a by (simp add: eq)
qed

theorem find_matches_exact_witness:
  "list_all is_wrapper [''ftp''] \<and> list_all is_wrapper [''data'', ''OUT'']
   \<and> \<lparr>full = ''o/data/OUT/A/B/file.csv'', rel = ''data/OUT/A/B/file.csv'', basename = ''file'',
        ext = ''.csv'', kind = ''csv'', mtime = []\<rparr>
      \<in> set (find_matches_for_source (join [os_sep] ([''ftp''] @ [''A'', ''B'', ''file.png''])) ''file''
          [\<lparr>full = ''o/data/A/B/File.csv'', rel = ''data/A/B/File.csv'', basename = ''File'',
             ext = ''.csv'', kind = ''csv'', mtime = []\<rparr>,
           \<lparr>full = ''o/data/OUT/A/B/file.csv'', rel = ''data/OUT/A/B/file.csv'', basename = ''file'',
             ext = ''.csv'', kind = ''csv'', mtime = []\<rparr>])
   \<and> \<lparr>full = ''o/data/A/B/File.csv'', rel = ''data/A/B/File.csv'', basename = ''File'',
        ext = ''.csv'', kind = ''csv'', mtime = []\<rparr>
      \<notin> set (find_matches_for_source (join [os_sep] ([''ftp''] @ [''A'', ''B'', ''file.png''])) ''file''
          [\<lparr>full = ''o/data/A/B/File.csv'', rel = ''data/A/B/File.csv'', basename = ''File'',
             ext = ''.csv'', kind = ''csv'', mtime = []\<rparr>,
           \<lparr>full = ''o/data/OUT/A/B/file.csv'', rel = ''data/OUT/A/B/file.csv'', basename = ''file'',
             ext = ''.csv'', kind = ''csv'', mtime = []\<rparr>])"
proof -
  let ?o1 = "\<lparr>full = ''o/data/A/B/File.csv'', rel = ''data/A/B/File.csv'', basename = ''File'',
             ext = ''.csv'', kind = ''csv'', mtime = []\<rparr>"
  let ?o2 = "\<lparr>full = ''o/data/OUT/A/B/file.csv'', rel = ''data/OUT/A/B/file.csv'', basename = ''file'',
             ext = ''.csv'', kind = ''csv'', mtime = []\<rparr>"
  let ?src = "join [os_sep] ([''ftp''] @ [''A'', ''B'', ''file.png''])"
  have w: "list_all is_wrapper [''ftp'']" "list_all is_wrapper [''data'', ''OUT'']"
    by code_simp+
  have r: "rel ?o2 = join [os_sep] ([''data'', ''OUT''] @ [''A'', ''B'', ''file.csv''])"
    by (simp add: os_sep_def)
  have m: "?o2 \<in> set [?o1, ?o2]" "basename ?o2 = ''file''" by simp_all
  note t = find_matches_exact [of ?src "''file''" "[?o1, ?o2]" "[''ftp'']" "[''data'', ''OUT'']" ?o2]
  from t w r m have "?o2 \<in> set (find_matches_for_source ?src ''file'' [?o1, ?o2])"
    by blast
  moreover from t have "find_matches_for_source ?src ''file'' [?o1, ?o2] =
      filter (\<lambda>out. strip_leading (os_path_dirname (rel out)) = strip_leading (os_path_dirname ?src)
                   \<and> basename out = ''file'') [?o1, ?o2]"
    by (rule conjunct1)
  then have "?o1 \<notin> set (find_matches_for_source ?src ''file'' [?o1, ?o2])"
    by simp
  ultimately show ?thesis using w by blast
qed

text \<open>
  C10: wrapper detection lowercases the segment, so a leading segment such as \<open>FTP\<close> or
  \<open>Output\<close> is stripped; the normalized directories are then compared as they are, and a
  source under \<open>A/B\<close> never matches an output under \<open>a/b\<close>.
\<close>

theorem matching_case_sensitive:
  "(lower w \<in> set SKIP_LEADING \<longrightarrow> strip_leading (w @ os_sep # path) = strip_leading path)
   \<and> strip_leading ''FTP/A/B'' = ''A/B'' \<and> strip_leading ''Output/a/b'' = ''a/b''
   \<and> (strip_leading (os_path_dirname src_rel) = ''A/B''
        \<and> strip_leading (os_path_dirname (rel out)) = ''a/b''
      \<longrightarrow> out \<notin> set (find_matches_for_source src_rel src_basename outputs))"
proof (intro conjI impI)
  assume "lower w \<in> set SKIP_LEADING"
  then show "strip_leading (w @ os_sep # path) = strip_leading path"
    by (rule strip_leading_wrapper_prefix)
next
  show "strip_leading ''FTP/A/B'' = ''A/B''" by code_simp
next
  show "strip_leading ''Output/a/b'' = ''a/b''" by code_simp
next
  assume "strip_leading (os_path_dirname src_rel) = ''A/B''
        \<and> strip_leading (os_path_dirname (rel out)) = ''a/b''"
  then show "out \<notin> set (find_matches_for_source src_rel src_basename outputs)"
    by (simp add: find_matches_for_source_def match_loop_filter)
qed

theorem matching_case_sensitive_witness:
  "lower ''OutPut'' \<in> set SKIP_LEADING
   \<and> strip_leading (''OutPut'' @ os_sep # ''a/b'') = strip_leading ''a/b''
   \<and> strip_leading (os_path_dirname ''FTP/A/B/x.png'') = ''A/B''
   \<and> strip_leading (os_path_dirname (rel \<lparr>full = ''o/Output/a/b/x.csv'', rel = ''Output/a/b/x.csv'',
        basename = ''x'', ext = ''.csv'', kind = ''csv'', mtime = []\<rparr>)) = ''a/b''
   \<and> \<lparr>full = ''o/Output/a/b/x.csv'', rel = ''Output/a/b/x.csv'',
        basename = ''x'', ext = ''.csv'', kind = ''csv'', mtime = []\<rparr>
      \<notin> set (find_matches_for_source ''FTP/A/B/x.png'' ''x''
          [\<lparr>full = ''o/Output/a/b/x.csv'', rel = ''Output/a/b/x.csv'',
            basename = ''x'', ext = ''.csv'', kind = ''csv'', mtime = []\<rparr>])"
proof -
  let ?o = "\<lparr>full = ''o/Output/a/b/x.csv'', rel = ''Output/a/b/x.csv'',
        basename = ''x'', ext = ''.csv'', kind = ''csv'', mtime = []\<rparr>"
  have h1: "lower ''OutPut'' \<in> set SKIP_LEADING" by code_simp
  have h2: "strip_leading (os_path_dirname ''FTP/A/B/x.png'') = ''A/B''" by code_simp
  have h3: "strip_leading (os_path_dirname (rel ?o)) = ''a/b''" by code_simp
  note t = matching_case_sensitive [of "''OutPut''" "''a/b''" "''FTP/A/B/x.png''" ?o "''x''" "[?o]"]
  from t h1 have "strip_leading (''OutPut'' @ os_sep # ''a/b'') = strip_leading ''a/b''" by blast
  moreover from t h2 h3
  have "?o \<notin> set (find_matches_for_source ''FTP/A/B/x.png'' ''x'' [?o])" by blast
  ultimately show ?thesis using h1 h2 h3 by blast
qed

section \<open>The output index\<close>

lemma scan_files_map:
  "scan_files fs output_dir root files outputs =
     outputs @ map (output_record fs output_dir root) files"
  by (induction files arbitrary: outputs) simp_all

lemma scan_walk_concat:
  "scan_walk fs output_dir w outputs =
     outputs @ concat (map (\<lambda>(root, files). map (output_record fs output_dir root) files) w)"
  by (induction w arbitrary: outputs) (auto simp: scan_files_map)

lemma scan_outputs_concat:
  "scan_outputs fs output_dir =
     concat (map (\<lambda>(root, files). map (output_record fs output_dir root) files)
       (os_walk fs output_dir))"
  by (simp add: scan_outputs_def scan_walk_concat)

lemma output_record_fields:
  "full (output_record fs output_dir root f) = os_path_join root f"
  "rel (output_record fs output_dir root f) = os_path_relpath fs (os_path_join root f) output_dir"
  "basename (output_record fs output_dir root f) = fst (os_path_splitext (os_path_basename f))"
  "ext (output_record fs output_dir root f) = file_ext f"
  "kind (output_record fs output_dir root f) = classify (snd (os_path_splitext (os_path_basename f)))"
  "mtime (output_record fs output_dir root f) = iso_mtime fs (os_path_join root f)"
  by (simp_all add: output_record_def Let_def split_def)

lemma classify_lower: "classify e = kind_of_ext (lower e)"
  by (simp add: classify_def)

lemma scan_outputs_member:
  "r \<in> set (scan_outputs fs output_dir) \<Longrightarrow>
     \<exists>root f. r = output_record fs output_dir root f"
  by (auto simp: scan_outputs_concat)

text \<open>
  C8: the kind of an indexed output file is a function of its extension alone, compared
  without regard to case: \<open>.csv\<close> gives \<open>csv\<close>, \<open>.timeout\<close> gives \<open>timeout\<close>, \<open>.error\<close>
  gives \<open>error\<close>, and every other extension, the empty one included, gives \<open>other\<close>.
\<close>

theorem kind_by_extension:
  "kind (output_record fs output_dir root f) = kind_of_ext (file_ext f)
   \<and> (r \<in> set (scan_outputs fs output_dir) \<longrightarrow> kind r = kind_of_ext (ext r))
   \<and> (file_ext f = file_ext f' \<longrightarrow>
        kind (output_record fs output_dir root f) = kind (output_record fs' output_dir' root' f'))"
proof (intro conjI impI)
  show k: "kind (output_record fs output_dir root f) = kind_of_ext (file_ext f)"
    for fs output_dir root f
    by (simp only: output_record_fields classify_lower)
  show "kind r = kind_of_ext (ext r)" if "r \<in> set (scan_outputs fs output_dir)"
  proof -
    from that obtain root f where "r = output_record fs output_dir root f"
      using scan_outputs_member by blast
    then show ?thesis by (simp only: k output_record_fields)
  qed
  show "kind (output_record fs output_dir root f) = kind (output_record fs' output_dir' root' f')"
    if "file_ext f = file_ext f'"
    using that by (simp only: k)
qed

theorem kind_by_extension_witness:
  "output_record fs_example ''out'' ''out/output/CategoryX/Book1'' ''img001.CSV''
     \<in> set (scan_outputs fs_example ''out'')
   \<and> ext (output_record fs_example ''out'' ''out/output/CategoryX/Book1'' ''img001.CSV'') = ''.csv''
   \<and> kind (output_record fs_example ''out'' ''out/output/CategoryX/Book1'' ''img001.CSV'') = ''csv''
   \<and> file_ext ''README'' = file_ext ''Makefile''
   \<and> kind (output_record fs_example ''out'' ''out'' ''README'') = ''other''
   \<and> kind (output_record fs_example ''out'' ''out'' ''Makefile'') = ''other''"
proof -
  let ?r = "output_record fs_example ''out'' ''out/output/CategoryX/Book1'' ''img001.CSV''"
  have h1: "?r \<in> set (scan_outputs fs_example ''out'')"
    by (simp add: scan_outputs_concat fs_example_def)
  have h2: "ext ?r = ''.csv''" by code_simp
  have h3: "file_ext ''README'' = file_ext ''Makefile''" by code_simp
  have h4: "file_ext ''README'' = []" by code_simp
  have "kind ?r = kind_of_ext (ext ?r)"
    using kind_by_extension [where fs = fs_example and output_dir = "''out''" and r = ?r] h1
    by blast
  then have c1: "kind ?r = ''csv''" by (simp add: h2)
  have "kind (output_record fs_example ''out'' ''out'' ''README'') = kind_of_ext (file_ext ''README'')"
    using kind_by_extension [of fs_example "''out''" "''out''" "''README''"] by blast
  then have c2: "kind (output_record fs_example ''out'' ''out'' ''README'') = ''other''"
    by (simp add: h4)
  have "kind (output_record fs_example ''out'' ''out'' ''README'')
      = kind (output_record fs_example ''out'' ''out'' ''Makefile'')"
    using kind_by_extension [of fs_example "''out''" "''out''" "''README''" _ "''Makefile''"
      fs_example "''out''" "''out''"] h3 by blast
  with c2 have c3: "kind (output_record fs_example ''out'' ''out'' ''Makefile'') = ''other''"
    by simp
  from h1 h2 h3 c1 c2 c3 show ?thesis by blast
qed

lemma iso_mtime_fail: "getmtime fs path = None \<Longrightarrow> iso_mtime fs path = []"
  by (simp add: iso_mtime_def)

lemma output_record_eq:
  "output_record fs output_dir root f =
     \<lparr>full = os_path_join root f,
      rel = os_path_relpath fs (os_path_join root f) output_dir,
      basename = fst (os_path_splitext (os_path_basename f)),
      ext = lower (snd (os_path_splitext (os_path_basename f))),
      kind = classify (snd (os_path_splitext (os_path_basename f))),
      mtime = iso_mtime fs (os_path_join root f)\<rparr>"
  by (simp add: output_record_def Let_def split_def)

text \<open>
  C7: when reading the modification time of a file fails, the record of the file has the
  empty string as its modification time and all its other fields as usual; the index
  still holds one record for every file of the walk, it does not depend on the
  modification times apart from that field, and the record is matched like any other.
\<close>

theorem mtime_failure_recovered:
  "(getmtime fs (os_path_join root f) = None \<longrightarrow>
      output_record fs output_dir root f =
        \<lparr>full = os_path_join root f,
         rel = os_path_relpath fs (os_path_join root f) output_dir,
         basename = fst (os_path_splitext (os_path_basename f)),
         ext = lower (snd (os_path_splitext (os_path_basename f))),
         kind = classify (snd (os_path_splitext (os_path_basename f))),
         mtime = []\<rparr>)
   \<and> scan_outputs fs output_dir =
       concat (map (\<lambda>(root, files). map (output_record fs output_dir root) files)
         (os_walk fs output_dir))
   \<and> map (mtime_update (\<lambda>_. [])) (scan_outputs (fs\<lparr>getmtime := g\<rparr>) output_dir)
       = map (mtime_update (\<lambda>_. [])) (scan_outputs fs output_dir)
   \<and> (out \<in> set (scan_outputs fs output_dir) \<and> mtime out = []
        \<and> strip_leading (os_path_dirname (rel out)) = strip_leading (os_path_dirname src_rel)
        \<and> basename out = src_basename
      \<longrightarrow> out \<in> set (find_matches_for_source src_rel src_basename (scan_outputs fs output_dir)))"
proof (intro conjI impI)
  assume "getmtime fs (os_path_join root f) = None"
  then show "output_record fs output_dir root f =
        \<lparr>full = os_path_join root f,
         rel = os_path_relpath fs (os_path_join root f) output_dir,
         basename = fst (os_path_splitext (os_path_basename f)),
         ext = lower (snd (os_path_splitext (os_path_basename f))),
         kind = classify (snd (os_path_splitext (os_path_basename f))),
         mtime = []\<rparr>"
    by (simp add: output_record_eq iso_mtime_fail)
next
  show "scan_outputs fs output_dir =
       concat (map (\<lambda>(root, files). map (output_record fs output_dir root) files)
         (os_walk fs output_dir))"
    by (rule scan_outputs_concat)
next
  have "mtime_update (\<lambda>_. []) (output_record (fs\<lparr>getmtime := g\<rparr>) output_dir r x)
      = mtime_update (\<lambda>_. []) (output_record fs output_dir r x)" for r x
    by (simp add: output_record_eq)
  then show "map (mtime_update (\<lambda>_. [])) (scan_outputs (fs\<lparr>getmtime := g\<rparr>) output_dir)
       = map (mtime_update (\<lambda>_. [])) (scan_outputs fs output_dir)"
    by (simp add: scan_outputs_concat map_concat split_def comp_def)
next
  assume "out \<in> set (scan_outputs fs output_dir) \<and> mtime out = []
        \<and> strip_leading (os_path_dirname (rel out)) = strip_leading (os_path_dirname src_rel)
        \<and> basename out = src_basename"
  then show "out \<in> set (find_matches_for_source src_rel src_basename (scan_outputs fs output_dir))"
    by (simp add: find_matches_for_source_def match_loop_filter)
qed

theorem mtime_failure_recovered_witness:
  "getmtime fs_example (os_path_join ''out/output/CategoryX/Book1'' ''img001.CSV'') = None
   \<and> output_record fs_example ''out'' ''out/output/CategoryX/Book1'' ''img001.CSV'' =
       \<lparr>full = ''out/output/CategoryX/Book1/img001.CSV'', rel = ''output/CategoryX/Book1/img001.CSV'',
        basename = ''img001'', ext = ''.csv'', kind = ''csv'', mtime = []\<rparr>
   \<and> \<lparr>full = ''out/output/CategoryX/Book1/img001.CSV'', rel = ''output/CategoryX/Book1/img001.CSV'',
        basename = ''img001'', ext = ''.csv'', kind = ''csv'', mtime = []\<rparr>
       \<in> set (find_matches_for_source ''ftp/CategoryX/Book1/img001.png'' ''img001''
                (scan_outputs fs_example ''out''))"
proof -
  let ?root = "''out/output/CategoryX/Book1''"
  let ?r = "\<lparr>full = ''out/output/CategoryX/Book1/img001.CSV'', rel = ''output/CategoryX/Book1/img001.CSV'',
        basename = ''img001'', ext = ''.csv'', kind = ''csv'', mtime = []\<rparr>"
  note t = mtime_failure_recovered [of fs_example ?root "''img001.CSV''" "''out''" _ ?r
      "''ftp/CategoryX/Book1/img001.png''" "''img001''"]
  have h: "getmtime fs_example (os_path_join ?root ''img001.CSV'') = None" by code_simp
  have e: "\<lparr>full = os_path_join ?root ''img001.CSV'',
         rel = os_path_relpath fs_example (os_path_join ?root ''img001.CSV'') ''out'',
         basename = fst (os_path_splitext (os_path_basename ''img001.CSV'')),
         ext = lower (snd (os_path_splitext (os_path_basename ''img001.CSV''))),
         kind = classify (snd (os_path_splitext (os_path_basename ''img001.CSV''))),
         mtime = []\<rparr> = ?r"
    by code_simp
  from t h e have r: "output_record fs_example ''out'' ?root ''img001.CSV'' = ?r" by simp
  have "output_record fs_example ''out'' ?root ''img001.CSV'' \<in> set (scan_outputs fs_example ''out'')"
    by (simp add: scan_outputs_concat fs_example_def)
  with r have m: "?r \<in> set (scan_outputs fs_example ''out'')" by simp
  have d: "strip_leading (os_path_dirname (rel ?r))
      = strip_leading (os_path_dirname ''ftp/CategoryX/Book1/img001.png'')"
    by code_simp
  have mt: "mtime ?r = []" and bn: "basename ?r = ''img001''" by simp_all
  from t m mt d bn
  have "?r \<in> set (find_matches_for_source ''ftp/CategoryX/Book1/img001.png'' ''img001''
                (scan_outputs fs_example ''out''))"
    by blast
  with h r show ?thesis by blast
qed

section \<open>Report rows and their count\<close>

lemma describe_matches_eq:
  "describe_matches ms match_descs kinds = (match_descs @ map match_desc ms, kinds @ map kind ms)"
  by (induction ms arbitrary: match_descs kinds) simp_all

lemma source_row_fields:
  "relative_path (source_row fs outputs data_dir root f) = os_path_relpath fs (os_path_join root f) data_dir"
  "status (source_row fs outputs data_dir root f) =
     determine_status (map kind (row_matches fs outputs data_dir root f))"
  "num_outputs (source_row fs outputs data_dir root f) = length (row_matches fs outputs data_dir root f)"
  "has_output (source_row fs outputs data_dir root f) = (row_matches fs outputs data_dir root f \<noteq> [])"
  by (simp_all add: source_row_def Let_def describe_matches_eq)

lemma determine_status_other:
  "list_all (\<lambda>k. k = ''other'') ks \<Longrightarrow> determine_status ks = ''NOT_ELABORATED''"
  by (auto simp: determine_status_def list_all_iff Let_def)

lemma source_row_invariant:
  "status (source_row fs outputs data_dir root f) \<noteq> ''NOT_ELABORATED'' \<Longrightarrow>
     has_output (source_row fs outputs data_dir root f)
     \<and> 1 \<le> num_outputs (source_row fs outputs data_dir root f)"
  by (cases "row_matches fs outputs data_dir root f")
    (simp_all add: source_row_fields determine_status_def)

lemma report_files_eq:
  "report_files fs outputs data_dir exts include_all root files (rows, n) =
     (rows @ map (source_row fs outputs data_dir root) (filter (passes exts include_all) files),
      n + length (filter (passes exts include_all) files))"
  by (induction files arbitrary: rows n) (auto simp: Let_def)

lemma report_walk_eq:
  "report_walk fs outputs data_dir exts include_all w (rows, n) =
     (rows @ concat (map (\<lambda>(root, files).
         map (source_row fs outputs data_dir root) (filter (passes exts include_all) files)) w),
      n + length (filter (passes exts include_all) (concat (map snd w))))"
  by (induction w arbitrary: rows n) (auto simp: report_files_eq)

lemma length_rows:
  "length (concat (map (\<lambda>(root, files). map (g root) (filter P files)) w))
     = length (filter P (concat (map snd w)))"
  by (induction w) auto

lemma generate_report_eq:
  "generate_report fs data_dir output_dir exts include_all sort_rows =
     (let rows = concat (map (\<lambda>(root, files).
             map (source_row fs (scan_outputs fs output_dir) data_dir root)
               (filter (passes exts include_all) files)) (os_walk fs data_dir))
      in (if sort_rows then sort_key relative_path rows else rows,
          length (filter (passes exts include_all) (concat (map snd (os_walk fs data_dir))))))"
  by (simp add: generate_report_def report_walk_eq Let_def)

lemma generate_report_member:
  assumes "r \<in> set (fst (generate_report fs data_dir output_dir exts include_all sort_rows))"
  shows "\<exists>root f. r = source_row fs (scan_outputs fs output_dir) data_dir root f"
proof -
  from assms have "r \<in> set (concat (map (\<lambda>(root, files).
             map (source_row fs (scan_outputs fs output_dir) data_dir root)
               (filter (passes exts include_all) files)) (os_walk fs data_dir)))"
    by (simp add: generate_report_eq Let_def split: if_splits)
  then show ?thesis by auto
qed

text \<open>
  C9: in every report row a status other than \<open>NOT_ELABORATED\<close> comes with
  \<open>has_output\<close> and at least one output. The converse fails: a source matched only by
  outputs of kind \<open>other\<close> has \<open>has_output\<close> and the status \<open>NOT_ELABORATED\<close>.
\<close>

theorem status_implies_output:
  "(status (source_row fs outputs data_dir root f) \<noteq> ''NOT_ELABORATED'' \<longrightarrow>
      has_output (source_row fs outputs data_dir root f)
      \<and> 1 \<le> num_outputs (source_row fs outputs data_dir root f))
   \<and> (r \<in> set (fst (generate_report fs data_dir output_dir exts include_all sort_rows))
        \<and> status r \<noteq> ''NOT_ELABORATED'' \<longrightarrow> has_output r \<and> 1 \<le> num_outputs r)
   \<and> (row_matches fs outputs data_dir root f \<noteq> []
        \<and> list_all (\<lambda>m. kind m = ''other'') (row_matches fs outputs data_dir root f) \<longrightarrow>
      has_output (source_row fs outputs data_dir root f)
      \<and> status (source_row fs outputs data_dir root f) = ''NOT_ELABORATED'')"
proof (intro conjI impI)
  assume "status (source_row fs outputs data_dir root f) \<noteq> ''NOT_ELABORATED''"
  then show "has_output (source_row fs outputs data_dir root f)"
    and "1 \<le> num_outputs (source_row fs outputs data_dir root f)"
    using source_row_invariant by blast+
next
  assume a: "r \<in> set (fst (generate_report fs data_dir output_dir exts include_all sort_rows))
        \<and> status r \<noteq> ''NOT_ELABORATED''"
  then obtain root' f' where "r = source_row fs (scan_outputs fs output_dir) data_dir root' f'"
    using generate_report_member by blast
  with a show "has_output r" and "1 \<le> num_outputs r"
    using source_row_invariant by blast+
next
  assume a: "row_matches fs outputs data_dir root f \<noteq> []
        \<and> list_all (\<lambda>m. kind m = ''other'') (row_matches fs outputs data_dir root f)"
  then show "has_output (source_row fs outputs data_dir root f)"
    by (simp add: source_row_fields)
  from a have "list_all (\<lambda>k. k = ''other'') (map kind (row_matches fs outputs data_dir root f))"
    by (simp add: list_all_iff)
  then show "status (source_row fs outputs data_dir root f) = ''NOT_ELABORATED''"
    by (simp only: source_row_fields determine_status_other)
qed

theorem status_implies_output_witness:
  "status (source_row fs_example (scan_outputs fs_example ''out'') ''in''
       ''in/ftp/CategoryX/Book1'' ''img001.png'') \<noteq> ''NOT_ELABORATED''
   \<and> has_output (source_row fs_example (scan_outputs fs_example ''out'') ''in''
       ''in/ftp/CategoryX/Book1'' ''img001.png'')
   \<and> 1 \<le> num_outputs (source_row fs_example (scan_outputs fs_example ''out'') ''in''
       ''in/ftp/CategoryX/Book1'' ''img001.png'')
   \<and> source_row fs_example (scan_outputs fs_example ''out'') ''in''
       ''in/ftp/CategoryX/Book1'' ''img001.png''
      \<in> set (fst (generate_report fs_example ''in'' ''out'' [''.png''] False True))
   \<and> row_matches fs_example (scan_outputs fs_example ''out'') ''in''
       ''in/ftp/CategoryX/Book1'' ''img002.PNG'' \<noteq> []
   \<and> list_all (\<lambda>m. kind m = ''other'') (row_matches fs_example (scan_outputs fs_example ''out'') ''in''
       ''in/ftp/CategoryX/Book1'' ''img002.PNG'')
   \<and> has_output (source_row fs_example (scan_outputs fs_example ''out'') ''in''
       ''in/ftp/CategoryX/Book1'' ''img002.PNG'')
   \<and> status (source_row fs_example (scan_outputs fs_example ''out'') ''in''
       ''in/ftp/CategoryX/Book1'' ''img002.PNG'') = ''NOT_ELABORATED''"
proof -
  let ?outs = "scan_outputs fs_example ''out''"
  let ?r1 = "source_row fs_example ?outs ''in'' ''in/ftp/CategoryX/Book1'' ''img001.png''"
  let ?m2 = "row_matches fs_example ?outs ''in'' ''in/ftp/CategoryX/Book1'' ''img002.PNG''"
  have h1: "status ?r1 \<noteq> ''NOT_ELABORATED''" by code_simp
  have h2: "?m2 \<noteq> [] \<and> list_all (\<lambda>m. kind m = ''other'') ?m2" by code_simp
  have p: "passes [''.png''] False ''img001.png''" by code_simp
  have h3: "?r1 \<in> set (fst (generate_report fs_example ''in'' ''out'' [''.png''] False True))"
    using p by (simp add: generate_report_eq Let_def fs_example_def)
  note t1 = status_implies_output [of fs_example ?outs "''in''" "''in/ftp/CategoryX/Book1''"
      "''img001.png''" ?r1 "''out''" "[''.png'']" False True]
  note t2 = status_implies_output [of fs_example ?outs "''in''" "''in/ftp/CategoryX/Book1''"
      "''img002.PNG''"]
  from t1 h1 h3 have "has_output ?r1 \<and> 1 \<le> num_outputs ?r1" by blast
  moreover from t2 h2
  have "has_output (source_row fs_example ?outs ''in'' ''in/ftp/CategoryX/Book1'' ''img002.PNG'')
      \<and> status (source_row fs_example ?outs ''in'' ''in/ftp/CategoryX/Book1'' ''img002.PNG'')
          = ''NOT_ELABORATED''"
    by blast
  ultimately show ?thesis using h1 h2 h3 by blast
qed

lemma lower_char_idem: "lower_char (lower_char c) = lower_char c"
  by (simp add: lower_char_def Let_def)

lemma lower_idem: "lower (lower s) = lower s"
  by (simp add: lower_def lower_char_idem)

lemma lower_char_dot: "lower_char CHR ''.'' = CHR ''.''"
  by code_simp

lemma parse_exts_normal:
  assumes "e \<in> set (parse_exts s)"
  shows "startswith e CHR ''.'' \<and> lower e = e"
proof -
  from assms obtain x where x: "x \<noteq> []"
    and e: "e = (if startswith x CHR ''.'' then lower x else CHR ''.'' # lower x)"
    by (auto simp: parse_exts_def)
  show ?thesis
  proof (cases "startswith x CHR ''.''")
    case True
    then obtain y where "x = CHR ''.'' # y"
      by (cases x) (auto simp: startswith_def)
    with True e show ?thesis
      by (simp add: startswith_def lower_idem) (simp add: lower_def lower_char_dot)
  next
    case False
    with e show ?thesis
      by (simp add: startswith_def lower_def lower_char_dot lower_char_idem)
  qed
qed

text \<open>
  C5: the report has exactly one row for every source file of the walk whose lowercased
  extension is in the filter list, or for every source file when \<open>include_all\<close> is set,
  in the order of the walk and then sorted by relative path if asked; so the number of
  rows, and the count \<open>total_sources\<close>, is the number of these files. The filter list
  that \<open>main\<close> builds holds lowercase extensions with a leading dot.
\<close>

theorem row_count:
  "fst (generate_report fs data_dir output_dir exts include_all sort_rows) =
     (let rows = concat (map (\<lambda>(root, files).
             map (source_row fs (scan_outputs fs output_dir) data_dir root)
               (filter (\<lambda>f. include_all \<or> lower (snd (os_path_splitext f)) \<in> set exts) files))
             (os_walk fs data_dir))
      in if sort_rows then sort_key relative_path rows else rows)
   \<and> length (fst (generate_report fs data_dir output_dir exts include_all sort_rows)) =
       length (filter (\<lambda>f. include_all \<or> lower (snd (os_path_splitext f)) \<in> set exts)
         (concat (map snd (os_walk fs data_dir))))
   \<and> snd (generate_report fs data_dir output_dir exts include_all sort_rows) =
       length (filter (\<lambda>f. include_all \<or> lower (snd (os_path_splitext f)) \<in> set exts)
         (concat (map snd (os_walk fs data_dir))))
   \<and> (include_all \<longrightarrow>
        length (fst (generate_report fs data_dir output_dir exts include_all sort_rows)) =
          length (concat (map snd (os_walk fs data_dir))))
   \<and> (e \<in> set (parse_exts s) \<longrightarrow> startswith e CHR ''.'' \<and> lower e = e)"
proof -
  let ?g = "generate_report fs data_dir output_dir exts include_all sort_rows"
  let ?n = "length (filter (passes exts include_all) (concat (map snd (os_walk fs data_dir))))"
  have len: "length (fst ?g) = ?n"
    by (simp add: generate_report_eq Let_def length_rows)
  have "include_all \<longrightarrow> length (fst ?g) = length (concat (map snd (os_walk fs data_dir)))"
  proof
    assume include_all
    then have all: "filter (passes exts include_all) xs = xs" for xs :: "string list"
      by simp
    show "length (fst ?g) = length (concat (map snd (os_walk fs data_dir)))"
      by (simp only: len all)
  qed
  moreover have "fst ?g = (let rows = concat (map (\<lambda>(root, files).
             map (source_row fs (scan_outputs fs output_dir) data_dir root)
               (filter (passes exts include_all) files))
             (os_walk fs data_dir))
      in if sort_rows then sort_key relative_path rows else rows)"
    by (simp add: generate_report_eq Let_def)
  moreover have "snd ?g = ?n"
    by (simp add: generate_report_eq Let_def)
  moreover have "e \<in> set (parse_exts s) \<longrightarrow> startswith e CHR ''.'' \<and> lower e = e"
    using parse_exts_normal by blast
  ultimately show ?thesis using len by blast
qed

theorem row_count_witness:
  "length (fst (generate_report fs_example ''in'' ''out'' (parse_exts ''.PNG,jpg'') False True)) = 4
   \<and> snd (generate_report fs_example ''in'' ''out'' (parse_exts ''.PNG,jpg'') False True) = 4
   \<and> length (fst (generate_report fs_example ''in'' ''out'' (parse_exts ''.PNG,jpg'') True True)) = 5
   \<and> ''.png'' \<in> set (parse_exts ''.PNG,jpg'')
   \<and> startswith ''.png'' CHR ''.'' \<and> lower ''.png'' = ''.png''"
proof -
  have w: "concat (map snd (os_walk fs_example ''in''))
      = [''top.png'', ''img001.png'', ''img002.PNG'', ''img003.png'', ''notes.txt'']"
    by (simp add: fs_example_def)
  have f: "filter (\<lambda>f. False \<or> lower (snd (os_path_splitext f)) \<in> set (parse_exts ''.PNG,jpg''))
      [''top.png'', ''img001.png'', ''img002.PNG'', ''img003.png'', ''notes.txt'']
      = [''top.png'', ''img001.png'', ''img002.PNG'', ''img003.png'']"
    by code_simp
  have m: "''.png'' \<in> set (parse_exts ''.PNG,jpg'')" by code_simp
  note t = row_count [of fs_example "''in''" "''out''" "parse_exts ''.PNG,jpg''" False True
      "''.png''" "''.PNG,jpg''"]
  note t' = row_count [of fs_example "''in''" "''out''" "parse_exts ''.PNG,jpg''" True True]
  from t have "length (fst (generate_report fs_example ''in'' ''out'' (parse_exts ''.PNG,jpg'') False True))
      = length (filter (\<lambda>f. False \<or> lower (snd (os_path_splitext f)) \<in> set (parse_exts ''.PNG,jpg''))
         (concat (map snd (os_walk fs_example ''in''))))"
    by blast
  then have c1: "length (fst (generate_report fs_example ''in'' ''out'' (parse_exts ''.PNG,jpg'') False True)) = 4"
    by (simp only: w f) simp
  from t have "snd (generate_report fs_example ''in'' ''out'' (parse_exts ''.PNG,jpg'') False True)
      = length (filter (\<lambda>f. False \<or> lower (snd (os_path_splitext f)) \<in> set (parse_exts ''.PNG,jpg''))
         (concat (map snd (os_walk fs_example ''in''))))"
    by blast
  then have c2: "snd (generate_report fs_example ''in'' ''out'' (parse_exts ''.PNG,jpg'') False True) = 4"
    by (simp only: w f) simp
  from t' have "length (fst (generate_report fs_example ''in'' ''out'' (parse_exts ''.PNG,jpg'') True True))
      = length (concat (map snd (os_walk fs_example ''in'')))"
    by blast
  then have c3: "length (fst (generate_report fs_example ''in'' ''out'' (parse_exts ''.PNG,jpg'') True True)) = 5"
    by (simp only: w) simp
  from t m have "startswith ''.png'' CHR ''.'' \<and> lower ''.png'' = ''.png''" by blast
  with c1 c2 c3 m show ?thesis by blast
qed

section \<open>Category and container\<close>

lemma skip_eq: "skip = SKIP_LEADING"
  by (simp add: skip_def SKIP_LEADING_def)

lemma category_idx_takeWhile:
  "dropWhile (\<lambda>p. p = [] \<or> lower p \<in> set skip) ps \<noteq> [] \<Longrightarrow>
     category_idx i ps = i + length (takeWhile (\<lambda>p. p = [] \<or> lower p \<in> set skip) ps)"
  by (induction ps arbitrary: i) auto

lemma category_of_first:
  assumes "dropWhile (\<lambda>p. p = [] \<or> lower p \<in> set skip) (split os_sep rl) = c # rest"
  shows "category_of rl = c"
    and "book_container_of rl = (case rest of [] \<Rightarrow> [] | b # _ \<Rightarrow> b)"
proof -
  let ?P = "\<lambda>p. p = [] \<or> lower p \<in> set skip"
  let ?parts = "split os_sep rl"
  let ?tw = "takeWhile ?P ?parts"
  from assms have idx: "category_idx 0 ?parts = length ?tw"
    by (simp add: category_idx_takeWhile)
  have "?parts = ?tw @ dropWhile ?P ?parts" by simp
  with assms have parts: "?parts = ?tw @ c # rest" by simp
  then have len: "length ?parts = length ?tw + 1 + length rest"
    by (metis length_append length_Cons Suc_eq_plus1 add.assoc add.commute)
  have n0: "?parts ! length ?tw = c"
    by (subst parts) (rule nth_append_length)
  show "category_of rl = c"
    using idx len n0 by (simp add: category_of_def Let_def)
  show "book_container_of rl = (case rest of [] \<Rightarrow> [] | b # _ \<Rightarrow> b)"
  proof (cases rest)
    case Nil
    with idx len show ?thesis by (simp add: book_container_of_def Let_def)
  next
    case (Cons b ds)
    have "?parts ! (length ?tw + 1) = (c # rest) ! 1"
      by (subst parts) (simp add: nth_append)
    with Cons have "?parts ! (length ?tw + 1) = b" by simp
    with idx len Cons show ?thesis by (simp add: book_container_of_def Let_def)
  qed
qed

lemma source_row_category:
  "category (source_row fs outputs data_dir root f)
     = category_of (os_path_relpath fs (os_path_join root f) data_dir)"
  "book_container (source_row fs outputs data_dir root f)
     = book_container_of (os_path_relpath fs (os_path_join root f) data_dir)"
  by (simp_all add: source_row_def Let_def split_def)

text \<open>
  C4, as the code has it: the category of a row is the first segment of the source's
  relative path, file name included, that is neither empty nor a wrapper word, and the
  container is the segment of the relative path right after it, the empty string when
  the category is the last segment. So below wrappers and at least two directories they
  are these two directories; for a file directly in its category directory the container
  is the file name, and for a file with no directory left after stripping the category
  is the file name.
\<close>

theorem category_from_relative_path:
  "(dropWhile (\<lambda>p. p = [] \<or> lower p \<in> set skip)
        (split os_sep (os_path_relpath fs (os_path_join root f) data_dir)) = c # rest
      \<longrightarrow> category (source_row fs outputs data_dir root f) = c
          \<and> book_container (source_row fs outputs data_dir root f)
              = (case rest of [] \<Rightarrow> [] | b # _ \<Rightarrow> b))
   \<and> (os_path_relpath fs (os_path_join root f) data_dir = join [os_sep] (ws @ c # ds)
        \<and> list_all (\<lambda>w. lower w \<in> set skip) ws
        \<and> c \<noteq> [] \<and> lower c \<notin> set skip
        \<and> list_all (\<lambda>x. os_sep \<notin> set x) (c # ds)
      \<longrightarrow> category (source_row fs outputs data_dir root f) = c
          \<and> book_container (source_row fs outputs data_dir root f)
              = (case ds of [] \<Rightarrow> [] | b # _ \<Rightarrow> b))"
proof (intro conjI impI)
  assume "dropWhile (\<lambda>p. p = [] \<or> lower p \<in> set skip)
        (split os_sep (os_path_relpath fs (os_path_join root f) data_dir)) = c # rest"
  then show "category (source_row fs outputs data_dir root f) = c"
    and "book_container (source_row fs outputs data_dir root f)
              = (case rest of [] \<Rightarrow> [] | b # _ \<Rightarrow> b)"
    by (simp_all only: source_row_category category_of_first)
next
  let ?rl = "os_path_relpath fs (os_path_join root f) data_dir"
  let ?P = "\<lambda>p. p = [] \<or> lower p \<in> set skip"
  assume a: "?rl = join [os_sep] (ws @ c # ds)
        \<and> list_all (\<lambda>w. lower w \<in> set skip) ws
        \<and> c \<noteq> [] \<and> lower c \<notin> set skip
        \<and> list_all (\<lambda>x. os_sep \<notin> set x) (c # ds)"
  then have "list_all is_wrapper ws" by (simp add: skip_eq)
  then have "list_all is_segment ws"
    using wrapper_is_segment by (simp add: list_all_iff)
  with a have "list_all (\<lambda>x. os_sep \<notin> set x) (ws @ c # ds)"
    by (auto simp: list_all_iff)
  then have "split os_sep (join [os_sep] (ws @ c # ds)) = ws @ c # ds"
    by (intro split_join) simp_all
  with a have sp: "split os_sep ?rl = ws @ c # ds" by simp
  from a have "dropWhile ?P (ws @ c # ds) = dropWhile ?P (c # ds)"
    by (intro dropWhile_append2) (simp add: list_all_iff)
  with a sp have d: "dropWhile ?P (split os_sep ?rl) = c # ds" by simp
  then show "category (source_row fs outputs data_dir root f) = c"
    and "book_container (source_row fs outputs data_dir root f)
              = (case ds of [] \<Rightarrow> [] | b # _ \<Rightarrow> b)"
    by (simp_all only: source_row_category category_of_first)
qed

theorem category_from_relative_path_witness:
  "dropWhile (\<lambda>p. p = [] \<or> lower p \<in> set skip)
        (split os_sep (os_path_relpath fs_example
           (os_path_join ''in/ftp/CategoryX/Book1'' ''img001.png'') ''in''))
      = ''CategoryX'' # [''Book1'', ''img001.png'']
   \<and> category (source_row fs_example (scan_outputs fs_example ''out'') ''in''
        ''in/ftp/CategoryX/Book1'' ''img001.png'') = ''CategoryX''
   \<and> book_container (source_row fs_example (scan_outputs fs_example ''out'') ''in''
        ''in/ftp/CategoryX/Book1'' ''img001.png'') = ''Book1''"
proof -
  have h: "dropWhile (\<lambda>p. p = [] \<or> lower p \<in> set skip)
        (split os_sep (os_path_relpath fs_example
           (os_path_join ''in/ftp/CategoryX/Book1'' ''img001.png'') ''in''))
      = ''CategoryX'' # [''Book1'', ''img001.png'']"
    by code_simp
  note t = category_from_relative_path [of fs_example "''in/ftp/CategoryX/Book1''" "''img001.png''"
      "''in''" "''CategoryX''" "[''Book1'', ''img001.png'']" "scan_outputs fs_example ''out''"]
  from t h have "category (source_row fs_example (scan_outputs fs_example ''out'') ''in''
        ''in/ftp/CategoryX/Book1'' ''img001.png'') = ''CategoryX''
     \<and> book_container (source_row fs_example (scan_outputs fs_example ''out'') ''in''
        ''in/ftp/CategoryX/Book1'' ''img001.png'')
          = (case [''Book1'', ''img001.png''] of [] \<Rightarrow> [] | b # _ \<Rightarrow> b)"
    by blast
  with h show ?thesis by simp
qed

text \<open>
  C4 as stated fails: the source \<open>top.png\<close> lies at the top of the tree, its relative
  directory is empty, and its category is not the empty string but the file name.
\<close>

theorem category_not_from_directory:
  "relative_path (source_row fs_example (scan_outputs fs_example ''out'') ''in'' ''in'' ''top.png'')
     = ''top.png''
   \<and> os_path_dirname ''top.png'' = []
   \<and> strip_leading (os_path_dirname ''top.png'') = []
   \<and> category (source_row fs_example (scan_outputs fs_example ''out'') ''in'' ''in'' ''top.png'')
       = ''top.png''
   \<and> category (source_row fs_example (scan_outputs fs_example ''out'') ''in'' ''in'' ''top.png'')
       \<noteq> []"
proof -
  have r: "os_path_relpath fs_example (os_path_join ''in'' ''top.png'') ''in'' = ''top.png''"
    by code_simp
  have d: "os_path_dirname ''top.png'' = []" "strip_leading (os_path_dirname ''top.png'') = []"
    by code_simp+
  have c: "category_of ''top.png'' = ''top.png''" by code_simp
  from r have p: "relative_path (source_row fs_example (scan_outputs fs_example ''out'') ''in'' ''in''
      ''top.png'') = ''top.png''"
    by (simp only: source_row_fields)
  from r c have k: "category (source_row fs_example (scan_outputs fs_example ''out'') ''in'' ''in''
      ''top.png'') = ''top.png''"
    by (simp only: source_row_category)
  then have "category (source_row fs_example (scan_outputs fs_example ''out'') ''in'' ''in''
      ''top.png'') \<noteq> []"
    by simp
  with p d k show ?thesis by blast
qed

end
